theory Spec2Isabelle
  imports Main
begin

section \<open>remotetool: the command-line driver of the remote-apis SDK\<close>

text \<open>
  The development embeds \<^verbatim>\<open>go/cmd/remotetool/main.go\<close>: the flag checks and the
  operation dispatch of \<^verbatim>\<open>main\<close>, and the batch-file loop of \<^verbatim>\<open>ComputeTree\<close>.
  Go strings are byte sequences, modelled as \<^typ>\<open>string\<close> (a list of 8-bit characters).
  A call of \<^verbatim>\<open>log.Exitf\<close> or \<^verbatim>\<open>log.Fatal\<close> ends the process at once, so it is an
  outcome of the model, and the calls the program makes on the SDK client and on the
  standard output are collected, in order, in a trace.
\<close>

subsection \<open>The Go library functions the driver calls on strings\<close>

text \<open>
  \<^verbatim>\<open>strings.TrimSpace\<close> removes leading and trailing Unicode white space. Its input is
  UTF-8, so a white-space rune is one of the byte sequences below: the six ASCII
  characters tab, line feed, vertical tab, form feed, carriage return and space, then
  U+0085, U+00A0, U+1680, U+2000 to U+200A, U+2028, U+2029, U+202F, U+205F and U+3000.
  A byte that starts no such sequence (also an invalid one, which Go decodes to U+FFFD)
  is not white space and stops the trimming.
\<close>

definition space_encodings :: "string list" where
  "space_encodings =
    [[CHR 0x09], [CHR 0x0A], [CHR 0x0B], [CHR 0x0C], [CHR 0x0D], [CHR 0x20],
     [CHR 0xC2, CHR 0x85], [CHR 0xC2, CHR 0xA0],
     [CHR 0xE1, CHR 0x9A, CHR 0x80],
     [CHR 0xE2, CHR 0x80, CHR 0x80], [CHR 0xE2, CHR 0x80, CHR 0x81],
     [CHR 0xE2, CHR 0x80, CHR 0x82], [CHR 0xE2, CHR 0x80, CHR 0x83],
     [CHR 0xE2, CHR 0x80, CHR 0x84], [CHR 0xE2, CHR 0x80, CHR 0x85],
     [CHR 0xE2, CHR 0x80, CHR 0x86], [CHR 0xE2, CHR 0x80, CHR 0x87],
     [CHR 0xE2, CHR 0x80, CHR 0x88], [CHR 0xE2, CHR 0x80, CHR 0x89],
     [CHR 0xE2, CHR 0x80, CHR 0x8A],
     [CHR 0xE2, CHR 0x80, CHR 0xA8], [CHR 0xE2, CHR 0x80, CHR 0xA9],
     [CHR 0xE2, CHR 0x80, CHR 0xAF],
     [CHR 0xE2, CHR 0x81, CHR 0x9F],
     [CHR 0xE3, CHR 0x80, CHR 0x80]]"

text \<open>
  \<open>space_width encs s\<close> is the number of bytes of the white-space rune that \<open>s\<close> starts
  with, and 0 when it starts with none.
\<close>

definition space_width :: "string list \<Rightarrow> string \<Rightarrow> nat" where
  "space_width encs s =
     (case find (\<lambda>w. take (length w) s = w) encs of None \<Rightarrow> 0 | Some w \<Rightarrow> length w)"

function trim_with :: "string list \<Rightarrow> string \<Rightarrow> string" where
  "trim_with encs s =
     (if space_width encs s = 0 then s else trim_with encs (drop (space_width encs s) s))"
  by pat_completeness auto
termination
proof (relation "measure (\<lambda>(encs, s). length s)")
  show "wf (measure (\<lambda>(encs, s). length s))" by simp
next
  fix encs :: "string list" and s :: string
  assume nz: "space_width encs s \<noteq> 0"
  then obtain w where w: "find (\<lambda>w. take (length w) s = w) encs = Some w" "length w \<noteq> 0"
    by (auto simp: space_width_def split: option.splits)
  then have "take (length w) s = w"
    by (auto simp: find_Some_iff)
  with w(2) have "s \<noteq> []" by auto
  with nz show "((encs, drop (space_width encs s) s), (encs, s)) \<in> measure (\<lambda>(encs, s). length s)"
    by simp
qed

declare trim_with.simps [simp del]

definition TrimLeft :: "string \<Rightarrow> string" where
  "TrimLeft s = trim_with space_encodings s"

definition TrimRight :: "string \<Rightarrow> string" where
  "TrimRight s = rev (trim_with (map rev space_encodings) (rev s))"

definition TrimSpace :: "string \<Rightarrow> string" where
  "TrimSpace s = TrimRight (TrimLeft s)"

text \<open>
  \<^verbatim>\<open>strings.Split(s, sep)\<close> with a one-byte separator: the pieces between the
  separators, one more piece than there are separators (so the empty string gives one
  empty piece).
\<close>

fun Split :: "string \<Rightarrow> char \<Rightarrow> string list" where
  "Split [] sep = [[]]"
| "Split (c # cs) sep =
     (if c = sep then [] # Split cs sep
      else (case Split cs sep of [] \<Rightarrow> [[c]] | p # ps \<Rightarrow> (c # p) # ps))"

text \<open>
  \<^verbatim>\<open>bufio.Scanner\<close> with \<^verbatim>\<open>bufio.ScanLines\<close>: the tokens are the lines of the
  data with the line feed and one carriage return before it removed; a last line with
  no line feed is a token when it is not empty. The scanner's buffer holds at most
  \<^verbatim>\<open>bufio.MaxScanTokenSize\<close> bytes: at a line that does not fit, \<^verbatim>\<open>Scan\<close> returns
  false, and the loop of \<^verbatim>\<open>ComputeTree\<close> ends there as it does at the end of the file.
  \<open>scan_lines cur data\<close> has read \<open>cur\<close> of the current line.
\<close>

definition MaxScanTokenSize :: nat where
  "MaxScanTokenSize = 65536"

definition dropCR :: "string \<Rightarrow> string" where
  "dropCR s = (if s \<noteq> [] \<and> last s = CHR 0x0D then butlast s else s)"

fun scan_lines :: "string \<Rightarrow> string \<Rightarrow> string list" where
  "scan_lines cur [] =
     (if MaxScanTokenSize \<le> length cur \<or> cur = [] then [] else [dropCR cur])"
| "scan_lines cur (c # cs) =
     (if MaxScanTokenSize \<le> length cur then []
      else if c = CHR 0x0A then dropCR cur # scan_lines [] cs
      else scan_lines (cur @ [c]) cs)"

definition ScanLines :: "string \<Rightarrow> string list" where
  "ScanLines data = scan_lines [] data"

subsection \<open>The data of the driver\<close>

text \<open>
  Modelled from the spec: the types \<^verbatim>\<open>command.VirtualInput\<close> and
  \<^verbatim>\<open>command.InputSpec\<close> are declared in the package \<^verbatim>\<open>go/pkg/command\<close>, outside
  the driver. The spec gives a virtual input a path, optional contents and an
  executable flag, and an input spec an ordered sequence of input paths and an ordered
  sequence of virtual inputs. The driver appends pointers to fresh virtual inputs that
  it never shares, so they are values here.
\<close>

record VirtualInput =
  Path :: string
  Contents :: "string option"
  IsExecutable :: bool

record InputSpec =
  Inputs :: "string list"
  VirtualInputs :: "VirtualInput list"

text \<open>The Go literal \<^verbatim>\<open>command.InputSpec{}\<close>: every field has its zero value.\<close>

definition InputSpec_zero :: InputSpec where
  "InputSpec_zero = \<lparr>Inputs = [], VirtualInputs = []\<rparr>"

text \<open>The flags of the command line, after \<^verbatim>\<open>flag.Parse\<close>.\<close>

record flags =
  operation :: string
  digest :: string
  pathPrefix :: string
  inputRoot :: string
  execAttempts :: int
  cpuProfFile :: string

text \<open>
  What the program does to its surroundings, in order: the calls on the SDK client
  with their arguments, the writes to the standard output, the profile, and the one
  information line that \<^verbatim>\<open>ComputeTree\<close> logs when it returns (its run counter; the
  elapsed time is left out).
\<close>

datatype effect =
    Call_DownloadActionResult string string
  | Call_DownloadBlob string string
  | Call_DownloadDirectory string string
  | Call_ShowAction string
  | Call_ReexecuteAction string string
  | Call_CheckDeterminism string string int
  | Call_UploadBlob string
  | Call_ComputeMerkleTree string InputSpec
  | Stdout_Write string
  | Log_Ran int
  | File_Create string
  | Profile_Start
  | Profile_Stop
  | File_Close
  | Client_Close

text \<open>
  How the process ends: it returns from \<^verbatim>\<open>main\<close>, or \<^verbatim>\<open>log.Exitf\<close> or
  \<^verbatim>\<open>log.Fatal\<close> ends it with a message (no deferred call runs then).
\<close>

datatype outcome = Returned | Exited string | Fatal string

text \<open>
  The surroundings of one run: what each call on the file system, on the profiler and
  on the SDK client answers. An error is its message; \<open>None\<close> is Go's \<^verbatim>\<open>nil\<close> error.
  \<open>os_Open\<close> answers the contents of the file, or \<open>None\<close> when it cannot be opened.
\<close>

record env =
  os_Create :: "string \<Rightarrow> string option"
  StartCPUProfile :: "string option"
  NewClientFromFlags :: "string option"
  os_Open :: "string \<Rightarrow> string option"
  DownloadActionResult :: "string \<Rightarrow> string \<Rightarrow> string option"
  DownloadBlob :: "string \<Rightarrow> string \<Rightarrow> string + string"
  DownloadDirectory :: "string \<Rightarrow> string \<Rightarrow> string option"
  ShowAction :: "string \<Rightarrow> string + string"
  ReexecuteAction :: "string \<Rightarrow> string \<Rightarrow> string option"
  CheckDeterminism :: "string \<Rightarrow> string \<Rightarrow> int \<Rightarrow> string option"
  UploadBlob :: "string \<Rightarrow> string option"

subsection \<open>ComputeTree\<close>

text \<open>
  The state of the loop: the input spec \<^verbatim>\<open>is\<close> being accumulated, the counter
  \<^verbatim>\<open>totalRuns\<close>, and the calls made so far. The counter is a Go \<^verbatim>\<open>int\<close> that grows
  by one at most once per line of the file, far from overflow, so it is an integer.
\<close>

record loop_state =
  cur_is :: InputSpec
  totalRuns :: int
  calls :: "effect list"

definition loop_init :: loop_state where
  "loop_init = \<lparr>cur_is = InputSpec_zero, totalRuns = 0, calls = []\<rparr>"

text \<open>
  One iteration of the loop on the line \<open>txt\<close>: \<open>Inl\<close> is the message of
  \<^verbatim>\<open>log.Exitf\<close>, \<open>Inr\<close> the state after the line. The result of
  \<^verbatim>\<open>ComputeMerkleTree\<close> (the root digest, and its error) is dropped by the source, so the
  call is only recorded.
\<close>

definition scan_step :: "string \<Rightarrow> string \<Rightarrow> loop_state \<Rightarrow> string + loop_state" where
  "scan_step root txt st =
     (if TrimSpace txt = [] then
        (if length (Inputs (cur_is st)) \<noteq> 0 \<or> length (VirtualInputs (cur_is st)) \<noteq> 0 then
           Inr (st\<lparr>calls := calls st @ [Call_ComputeMerkleTree root (cur_is st)],
                   totalRuns := totalRuns st + 1,
                   cur_is := InputSpec_zero\<rparr>)
         else Inr st)
      else
        (case Split txt (CHR '':'') of
           [k, v] \<Rightarrow>
             (let key = TrimSpace k; v = TrimSpace v in
                if key = ''inputs'' then
                  Inr (st\<lparr>cur_is := (cur_is st)\<lparr>Inputs := Inputs (cur_is st) @ [v]\<rparr>\<rparr>)
                else if key = ''path'' then
                  Inr (st\<lparr>cur_is := (cur_is st)\<lparr>VirtualInputs := VirtualInputs (cur_is st) @
                         [\<lparr>Path = v, Contents = None, IsExecutable = False\<rparr>]\<rparr>\<rparr>)
                else Inl (''broken line '' @ txt))
         | _ \<Rightarrow> Inl (''broken line '' @ txt)))"

text \<open>The loop over the scanned lines; it stops at the first \<^verbatim>\<open>log.Exitf\<close>.\<close>

fun ComputeTree_loop :: "string \<Rightarrow> string list \<Rightarrow> loop_state \<Rightarrow> loop_state \<times> string option" where
  "ComputeTree_loop root [] st = (st, None)"
| "ComputeTree_loop root (txt # rest) st =
     (case scan_step root txt st of
        Inl msg \<Rightarrow> (st, Some msg)
      | Inr st' \<Rightarrow> ComputeTree_loop root rest st')"

text \<open>
  \<^verbatim>\<open>ComputeTree\<close>: \<^verbatim>\<open>getPathFlag\<close>, \<^verbatim>\<open>os.Open\<close>, the loop, and on return the deferred
  log line.
\<close>

definition ComputeTree :: "flags \<Rightarrow> env \<Rightarrow> effect list \<times> outcome" where
  "ComputeTree fl ev =
     (if pathPrefix fl = [] then ([], Exited ''--path must be specified.'')
      else
        (case os_Open ev (pathPrefix fl) of
           None \<Rightarrow> ([], Exited ''failed to open input'')
         | Some data \<Rightarrow>
             (case ComputeTree_loop (inputRoot fl) (ScanLines data) loop_init of
                (st, Some msg) \<Rightarrow> (calls st, Exited msg)
              | (st, None) \<Rightarrow> (calls st @ [Log_Ran (totalRuns st)], Returned))))"

subsection \<open>The operations and their dispatch\<close>

definition downloadActionResult :: string where
  "downloadActionResult = ''download_action_result''"

definition showAction :: string where
  "showAction = ''show_action''"

definition downloadBlob :: string where
  "downloadBlob = ''download_blob''"

definition downloadDir :: string where
  "downloadDir = ''download_dir''"

definition reexecuteAction :: string where
  "reexecuteAction = ''reexecute_action''"

definition checkDeterminism :: string where
  "checkDeterminism = ''check_determinism''"

definition uploadBlob :: string where
  "uploadBlob = ''upload_blob''"

definition computeTree :: string where
  "computeTree = ''compute_tree''"

definition supportedOps :: "string list" where
  "supportedOps =
     [downloadActionResult, showAction, downloadBlob, downloadDir, reexecuteAction,
      checkDeterminism, uploadBlob]"

text \<open>
  The verb \<^verbatim>\<open>%v\<close> of Go's \<^verbatim>\<open>fmt\<close> on a slice of strings: the elements, separated
  by one space, in square brackets.
\<close>

fun join_space :: "string list \<Rightarrow> string" where
  "join_space [] = []"
| "join_space [x] = x"
| "join_space (x # y # ys) = x @ '' '' @ join_space (y # ys)"

definition fmt_ops :: "string list \<Rightarrow> string" where
  "fmt_ops ops = ''['' @ join_space ops @ '']''"

text \<open>The help text of the flag \<^verbatim>\<open>--operation\<close>.\<close>

definition operation_usage :: string where
  "operation_usage =
     ''Specifies the operation to perform. Supported values: '' @ fmt_ops supportedOps"

text \<open>\<^verbatim>\<open>getDigestFlag\<close> and \<^verbatim>\<open>getPathFlag\<close>: \<open>Inl\<close> is the message of \<^verbatim>\<open>log.Exitf\<close>.\<close>

definition getDigestFlag :: "flags \<Rightarrow> string + string" where
  "getDigestFlag fl =
     (if digest fl = [] then Inl ''--digest must be specified.'' else Inr (digest fl))"

definition getPathFlag :: "flags \<Rightarrow> string + string" where
  "getPathFlag fl =
     (if pathPrefix fl = [] then Inl ''--path must be specified.'' else Inr (pathPrefix fl))"

text \<open>
  The \<^verbatim>\<open>switch\<close> of \<^verbatim>\<open>main\<close>. Go evaluates the arguments of a call from left to
  right, so the digest flag is read before the path flag; the arguments of
  \<^verbatim>\<open>log.Exitf\<close> are evaluated before it is called, so in the error branch of
  \<^verbatim>\<open>upload_blob\<close> a missing digest flag is what ends the process.
\<close>

definition run_operation :: "flags \<Rightarrow> env \<Rightarrow> effect list \<times> outcome" where
  "run_operation fl ev =
     (if operation fl = downloadActionResult then
        (case getDigestFlag fl of Inl m \<Rightarrow> ([], Exited m) | Inr d \<Rightarrow>
         (case getPathFlag fl of Inl m \<Rightarrow> ([], Exited m) | Inr p \<Rightarrow>
          (case DownloadActionResult ev d p of
             Some err \<Rightarrow> ([Call_DownloadActionResult d p],
                Exited (''error downloading action result for digest '' @ d @ '': '' @ err))
           | None \<Rightarrow> ([Call_DownloadActionResult d p], Returned))))
      else if operation fl = downloadBlob then
        (case getDigestFlag fl of Inl m \<Rightarrow> ([], Exited m) | Inr d \<Rightarrow>
         (case getPathFlag fl of Inl m \<Rightarrow> ([], Exited m) | Inr p \<Rightarrow>
          (case DownloadBlob ev d p of
             Inl err \<Rightarrow> ([Call_DownloadBlob d p],
                Exited (''error downloading blob for digest '' @ d @ '': '' @ err))
           | Inr res \<Rightarrow> ([Call_DownloadBlob d p, Stdout_Write res], Returned))))
      else if operation fl = downloadDir then
        (case getDigestFlag fl of Inl m \<Rightarrow> ([], Exited m) | Inr d \<Rightarrow>
         (case getPathFlag fl of Inl m \<Rightarrow> ([], Exited m) | Inr p \<Rightarrow>
          (case DownloadDirectory ev d p of
             Some err \<Rightarrow> ([Call_DownloadDirectory d p],
                Exited (''error downloading directory for digest '' @ d @ '': '' @ err))
           | None \<Rightarrow> ([Call_DownloadDirectory d p], Returned))))
      else if operation fl = showAction then
        (case getDigestFlag fl of Inl m \<Rightarrow> ([], Exited m) | Inr d \<Rightarrow>
         (case ShowAction ev d of
            Inl err \<Rightarrow> ([Call_ShowAction d],
               Exited (''error fetching action '' @ d @ '': '' @ err))
          | Inr res \<Rightarrow> ([Call_ShowAction d, Stdout_Write res], Returned)))
      else if operation fl = reexecuteAction then
        (case getDigestFlag fl of Inl m \<Rightarrow> ([], Exited m) | Inr d \<Rightarrow>
         (case ReexecuteAction ev d (inputRoot fl) of
            Some err \<Rightarrow> ([Call_ReexecuteAction d (inputRoot fl)],
               Exited (''error reexecuting action '' @ d @ '': '' @ err))
          | None \<Rightarrow> ([Call_ReexecuteAction d (inputRoot fl)], Returned)))
      else if operation fl = checkDeterminism then
        (case getDigestFlag fl of Inl m \<Rightarrow> ([], Exited m) | Inr d \<Rightarrow>
         (case CheckDeterminism ev d (inputRoot fl) (execAttempts fl) of
            Some err \<Rightarrow> ([Call_CheckDeterminism d (inputRoot fl) (execAttempts fl)],
               Exited (''error checking the determinism of '' @ d @ '': '' @ err))
          | None \<Rightarrow> ([Call_CheckDeterminism d (inputRoot fl) (execAttempts fl)], Returned)))
      else if operation fl = uploadBlob then
        (case getPathFlag fl of Inl m \<Rightarrow> ([], Exited m) | Inr p \<Rightarrow>
         (case UploadBlob ev p of
            Some err \<Rightarrow>
              (case getDigestFlag fl of
                 Inl m \<Rightarrow> ([Call_UploadBlob p], Exited m)
               | Inr d \<Rightarrow> ([Call_UploadBlob p],
                   Exited (''error uploading blob for digest '' @ d @ '': '' @ err)))
          | None \<Rightarrow> ([Call_UploadBlob p], Returned)))
      else if operation fl = computeTree then ComputeTree fl ev
      else ([], Exited (''unsupported operation '' @ operation fl @
                        ''. Supported operations:'' @ [CHR 0x0A] @ fmt_ops supportedOps)))"

text \<open>
  The CPU profile asked for by \<^verbatim>\<open>--pprof_file\<close>: the effects so far, and the message
  of \<^verbatim>\<open>log.Fatal\<close> when the file or the profile cannot be started.
\<close>

definition profile_setup :: "flags \<Rightarrow> env \<Rightarrow> effect list \<times> string option" where
  "profile_setup fl ev =
     (if cpuProfFile fl \<noteq> [] then
        (case os_Create ev (cpuProfFile fl) of
           Some err \<Rightarrow> ([], Some (''Could not create CPU profile: '' @ err))
         | None \<Rightarrow>
             (case StartCPUProfile ev of
                Some err \<Rightarrow> ([File_Create (cpuProfFile fl)],
                              Some (''Could not start CPU profile: '' @ err))
              | None \<Rightarrow> ([File_Create (cpuProfFile fl), Profile_Start], None)))
      else ([], None))"

text \<open>The deferred calls of \<^verbatim>\<open>main\<close>, in the order in which they run at its return.\<close>

definition deferred_calls :: "flags \<Rightarrow> effect list" where
  "deferred_calls fl =
     Client_Close # (if cpuProfFile fl \<noteq> [] then [Profile_Stop, File_Close] else [])"

definition main :: "flags \<Rightarrow> env \<Rightarrow> effect list \<times> outcome" where
  "main fl ev =
     (if operation fl = [] then ([], Exited ''--operation must be specified.'')
      else if execAttempts fl \<le> 0 then ([], Exited ''--exec_attempts must be >= 1.'')
      else
        (case profile_setup fl ev of
           (pre, Some m) \<Rightarrow> (pre, Fatal m)
         | (pre, None) \<Rightarrow>
             (case NewClientFromFlags ev of
                Some err \<Rightarrow>
                  (pre, Exited (''error connecting to remote execution client: '' @ err))
              | None \<Rightarrow>
                  (case run_operation fl ev of
                     (tr, Returned) \<Rightarrow> (pre @ tr @ deferred_calls fl, Returned)
                   | (tr, out) \<Rightarrow> (pre @ tr, out)))))"

subsection \<open>The batch file as the specification describes it\<close>

text \<open>
  The definitions of this subsection follow the words of the specification, not the
  code; the theorems compare the two. A line \<^verbatim>\<open>key: value\<close> is read at its first
  colon, with the white space around the key and around the value removed.
\<close>

definition spec_key_value :: "string \<Rightarrow> (string \<times> string) option" where
  "spec_key_value txt =
     (if CHR '':'' \<in> set txt then
        Some (TrimSpace (takeWhile (\<lambda>c. c \<noteq> CHR '':'') txt),
              TrimSpace (tl (dropWhile (\<lambda>c. c \<noteq> CHR '':'') txt)))
      else None)"

text \<open>
  The specification accepts a line that is blank or of the form \<^verbatim>\<open>key: value\<close> with
  the key \<^verbatim>\<open>inputs\<close> or \<^verbatim>\<open>path\<close>.
\<close>

definition spec_accepts :: "string \<Rightarrow> bool" where
  "spec_accepts txt =
     (TrimSpace txt = [] \<or>
      (case spec_key_value txt of
         None \<Rightarrow> False
       | Some (k, v) \<Rightarrow> k = ''inputs'' \<or> k = ''path''))"

definition spec_add_line :: "InputSpec \<Rightarrow> string \<Rightarrow> InputSpec" where
  "spec_add_line s txt =
     (case spec_key_value txt of
        None \<Rightarrow> s
      | Some (k, v) \<Rightarrow>
          if k = ''inputs'' then s\<lparr>Inputs := Inputs s @ [v]\<rparr>
          else if k = ''path'' then
            s\<lparr>VirtualInputs := VirtualInputs s @
                 [\<lparr>Path = v, Contents = None, IsExecutable = False\<rparr>]\<rparr>
          else s)"

text \<open>The record that a group of lines describes.\<close>

definition spec_record :: "string list \<Rightarrow> InputSpec" where
  "spec_record g = foldl spec_add_line InputSpec_zero g"

text \<open>
  The groups of lines that the blank lines separate: \<open>spec_groups g ls\<close> has the
  lines \<open>g\<close> of the current group behind it. The last group is the one that no blank
  line ends.
\<close>

fun spec_groups :: "string list \<Rightarrow> string list \<Rightarrow> string list list" where
  "spec_groups g [] = [g]"
| "spec_groups g (l # ls) =
     (if TrimSpace l = [] then g # spec_groups [] ls else spec_groups (g @ [l]) ls)"

text \<open>
  The lines of a file: the text between the line feeds, and the text after the last one
  when there is some. \<open>raw_lines\<close> keeps a carriage return that ends a line,
  \<open>file_lines\<close> removes it.
\<close>

fun raw_lines_from :: "string \<Rightarrow> string \<Rightarrow> string list" where
  "raw_lines_from cur [] = (if cur = [] then [] else [cur])"
| "raw_lines_from cur (c # cs) =
     (if c = CHR 0x0A then cur # raw_lines_from [] cs else raw_lines_from (cur @ [c]) cs)"

definition raw_lines :: "string \<Rightarrow> string list" where
  "raw_lines data = raw_lines_from [] data"

definition file_lines :: "string \<Rightarrow> string list" where
  "file_lines data = map dropCR (raw_lines data)"

text \<open>The non-empty records of a batch file, in the order of the file.\<close>

definition spec_records :: "string list \<Rightarrow> InputSpec list" where
  "spec_records ls = map spec_record (filter (\<lambda>g. g \<noteq> []) (spec_groups [] ls))"

text \<open>
  The lines that the loop of \<^verbatim>\<open>ComputeTree\<close> takes without ending the process, as
  the theorems below establish: the blank ones, and those with exactly one colon and
  the key \<^verbatim>\<open>inputs\<close> or \<^verbatim>\<open>path\<close> before it.
\<close>

definition well_formed_line :: "string \<Rightarrow> bool" where
  "well_formed_line txt =
     (TrimSpace txt = [] \<or>
      (count_list txt (CHR '':'') = 1 \<and>
       (TrimSpace (takeWhile (\<lambda>c. c \<noteq> CHR '':'') txt) = ''inputs'' \<or>
        TrimSpace (takeWhile (\<lambda>c. c \<noteq> CHR '':'') txt) = ''path'')))"

text \<open>What a trace writes to the standard output, in order.\<close>

fun stdout_of :: "effect list \<Rightarrow> string list" where
  "stdout_of [] = []"
| "stdout_of (Stdout_Write s # es) = s # stdout_of es"
| "stdout_of (e # es) = stdout_of es"

text \<open>The input specs that a trace hands to \<^verbatim>\<open>ComputeMerkleTree\<close>, in order.\<close>

fun builds_of :: "effect list \<Rightarrow> InputSpec list" where
  "builds_of [] = []"
| "builds_of (Call_ComputeMerkleTree r s # es) = s # builds_of es"
| "builds_of (e # es) = builds_of es"

subsection \<open>Predicates of the theorems\<close>


text \<open>A virtual input that carries its path only: no contents, not executable.\<close>

definition path_only :: "VirtualInput \<Rightarrow> bool" where
  "path_only vi = (Contents vi = None \<and> \<not> IsExecutable vi)"

text \<open>The test of the loop on the accumulated input spec.\<close>

definition spec_nonempty :: "InputSpec \<Rightarrow> bool" where
  "spec_nonempty s = (Inputs s \<noteq> [] \<or> VirtualInputs s \<noteq> [])"

subsection \<open>Sample runs\<close>

text \<open>
  The flags of a run that gives an operation, a digest and a path and leaves the other
  flags at their defaults, and surroundings in which every call succeeds and the files
  that can be opened are those of \<open>files\<close>.
\<close>

definition flags_of :: "string \<Rightarrow> string \<Rightarrow> string \<Rightarrow> flags" where
  "flags_of op d p =
     \<lparr>operation = op, digest = d, pathPrefix = p, inputRoot = [], execAttempts = 10,
      cpuProfFile = []\<rparr>"

definition ok_env :: "(string \<Rightarrow> string option) \<Rightarrow> env" where
  "ok_env files =
     \<lparr>os_Create = (\<lambda>f. None), StartCPUProfile = None, NewClientFromFlags = None,
      os_Open = files,
      DownloadActionResult = (\<lambda>d p. None),
      DownloadBlob = (\<lambda>d p. Inr ''blob''),
      DownloadDirectory = (\<lambda>d p. None),
      ShowAction = (\<lambda>d. Inr ''action''),
      ReexecuteAction = (\<lambda>d r. None),
      CheckDeterminism = (\<lambda>d r n. None),
      UploadBlob = (\<lambda>p. None)\<rparr>"

text \<open>A file system with the one file \<open>name\<close>.\<close>

definition one_file :: "string \<Rightarrow> string \<Rightarrow> string \<Rightarrow> string option" where
  "one_file name data p = (if p = name then Some data else None)"

section \<open>White space\<close>

text \<open>
  Trimming removes a sequence of white-space runes and leaves a string that starts with
  none; white space put around a string that neither starts nor ends with white space
  is removed again.
\<close>

lemma space_width_Nil [simp]: "space_width encs [] = 0"
  by (auto simp: space_width_def find_Some_iff split: option.splits)

lemma space_width_pos:
  assumes "space_width encs s \<noteq> 0"
  shows "\<exists>w\<in>set encs. w \<noteq> [] \<and> length w = space_width encs s \<and> s = w @ drop (space_width encs s) s"
proof -
  from assms obtain w where w: "find (\<lambda>w. take (length w) s = w) encs = Some w" "length w \<noteq> 0"
    "space_width encs s = length w"
    by (auto simp: space_width_def split: option.splits)
  then have "w \<in> set encs" "take (length w) s = w"
    by (auto simp: find_Some_iff)
  then have "s = w @ drop (length w) s"
    by (metis append_take_drop_id)
  with w \<open>w \<in> set encs\<close> show ?thesis by auto
qed


lemma trim_with_stop: "space_width encs s = 0 \<Longrightarrow> trim_with encs s = s"
  by (simp add: trim_with.simps)

lemma trim_with_Nil [simp]: "trim_with encs [] = []"
  by (simp add: trim_with_stop)

lemma trim_with_no_space: "space_width encs (trim_with encs s) = 0"
  by (induction encs s rule: trim_with.induct) (simp add: trim_with.simps)

lemma trim_with_decomp:
  "\<exists>ws. set ws \<subseteq> set encs \<and> s = concat ws @ trim_with encs s"
proof (induction encs s rule: trim_with.induct)
  case (1 encs s)
  show ?case
  proof (cases "space_width encs s = 0")
    case True
    then have "set [] \<subseteq> set encs \<and> s = concat [] @ trim_with encs s"
      by (simp add: trim_with_stop)
    then show ?thesis by blast
  next
    case False
    from space_width_pos [OF False] obtain w where
      w: "w \<in> set encs" "s = w @ drop (space_width encs s) s" by blast
    from 1 [OF False] obtain ws where
      ws: "set ws \<subseteq> set encs"
        "drop (space_width encs s) s = concat ws @ trim_with encs (drop (space_width encs s) s)"
      by blast
    have t: "trim_with encs s = trim_with encs (drop (space_width encs s) s)"
      using False by (subst trim_with.simps) simp
    have "set (w # ws) \<subseteq> set encs" using w ws by simp
    moreover have "s = concat (w # ws) @ trim_with encs s"
      using w(2) ws(2) t by (metis append.assoc concat.simps(2))
    ultimately show ?thesis by blast
  qed
qed







lemma enc_no_colon: "w \<in> set space_encodings \<Longrightarrow> CHR '':'' \<notin> set w"
  by (auto simp: space_encodings_def)







lemma TrimSpace_Nil [simp]: "TrimSpace [] = []"
  by (simp add: TrimSpace_def TrimLeft_def TrimRight_def)



lemma trim_with_bytes:
  "set s \<subseteq> set (trim_with encs s) \<union> \<Union>(set ` set encs)"
proof -
  from trim_with_decomp [of encs s] obtain ws where
    ws: "set ws \<subseteq> set encs" "s = concat ws @ trim_with encs s" by blast
  have "set (concat ws) \<subseteq> \<Union>(set ` set encs)" using ws(1) by auto
  then have "set (concat ws @ trim_with encs s) \<subseteq> set (trim_with encs s) \<union> \<Union>(set ` set encs)"
    by auto
  with ws(2) show ?thesis by simp
qed

lemma TrimSpace_bytes:
  "set s \<subseteq> set (TrimSpace s) \<union> \<Union>(set ` set space_encodings)"
proof -
  have a: "set s \<subseteq> set (TrimLeft s) \<union> \<Union>(set ` set space_encodings)"
    unfolding TrimLeft_def by (rule trim_with_bytes)
  have "set (rev (TrimLeft s)) \<subseteq> set (trim_with (map rev space_encodings) (rev (TrimLeft s)))
          \<union> \<Union>(set ` set (map rev space_encodings))"
    by (rule trim_with_bytes)
  then have b: "set (TrimLeft s) \<subseteq> set (TrimSpace s) \<union> \<Union>(set ` set space_encodings)"
    by (simp add: TrimSpace_def TrimRight_def)
  from a b show ?thesis by blast
qed

lemma blank_no_colon:
  assumes "TrimSpace s = []"
  shows "CHR '':'' \<notin> set s"
proof
  assume "CHR '':'' \<in> set s"
  with TrimSpace_bytes [of s] assms obtain w where
    "w \<in> set space_encodings" "CHR '':'' \<in> set w" by auto
  with enc_no_colon show False by blast
qed

section \<open>Splitting at the colon\<close>

text \<open>\<open>Split\<close> gives two pieces exactly for a string with one separator.\<close>

lemma Split_not_Nil [simp]: "Split s c \<noteq> []"
  by (induction s) (auto split: list.splits)

lemma Split_no_sep: "c \<notin> set s \<Longrightarrow> Split s c = [s]"
  by (induction s) auto

lemma Split_at_sep: "c \<notin> set a \<Longrightarrow> Split (a @ c # b) c = a # Split b c"
  by (induction a) auto

lemma length_Split: "length (Split s c) = Suc (count_list s c)"
  by (induction s) (auto split: list.splits)

lemma hd_Split: "hd (Split s c) = takeWhile (\<lambda>x. x \<noteq> c) s"
  by (induction s) (auto split: list.splits)

lemma count_list_zero_iff: "count_list s c = 0 \<longleftrightarrow> c \<notin> set s"
  by (induction s) auto

lemma Split_two_iff:
  "Split s c = [k, v] \<longleftrightarrow> s = k @ c # v \<and> c \<notin> set k \<and> c \<notin> set v"
proof
  assume "s = k @ c # v \<and> c \<notin> set k \<and> c \<notin> set v"
  then show "Split s c = [k, v]"
    by (simp add: Split_at_sep Split_no_sep)
next
  assume "Split s c = [k, v]"
  then show "s = k @ c # v \<and> c \<notin> set k \<and> c \<notin> set v"
  proof (induction s arbitrary: k)
    case Nil
    then show ?case by simp
  next
    case (Cons x xs)
    show ?case
    proof (cases "x = c")
      case True
      with Cons.prems have k: "k = []" and r: "Split xs c = [v]" by auto
      from r have "count_list xs c = 0"
        using length_Split [of xs c] by simp
      then have nin: "c \<notin> set xs" by (simp add: count_list_zero_iff)
      then have "xs = v" using r by (simp add: Split_no_sep)
      with True k nin show ?thesis by simp
    next
      case False
      with Cons.prems obtain p where p: "Split xs c = [p, v]" "k = x # p"
        by (auto split: list.splits)
      from Cons.IH [OF p(1)] False p(2) show ?thesis by simp
    qed
  qed
qed

lemma Split_two_count:
  "(\<exists>k v. Split s c = [k, v]) \<longleftrightarrow> count_list s c = 1"
proof -
  have "(\<exists>k v. Split s c = [k, v]) \<longleftrightarrow> length (Split s c) = 2"
    by (auto simp: length_Suc_conv numeral_2_eq_2)
  then show ?thesis by (simp add: length_Split)
qed

lemma Split_two_parts:
  assumes "Split s c = [k, v]"
  shows "k = takeWhile (\<lambda>x. x \<noteq> c) s" and "v = tl (dropWhile (\<lambda>x. x \<noteq> c) s)" and "c \<in> set s"
proof -
  from assms have s: "s = k @ c # v" "c \<notin> set k" by (simp_all add: Split_two_iff)
  have tk: "takeWhile (\<lambda>x. x \<noteq> c) (k @ c # v) = k"
    using s(2) by (induction k) auto
  have dk: "dropWhile (\<lambda>x. x \<noteq> c) (k @ c # v) = c # v"
    using s(2) by (induction k) auto
  show "k = takeWhile (\<lambda>x. x \<noteq> c) s"
    using s(1) tk by simp
  show "v = tl (dropWhile (\<lambda>x. x \<noteq> c) s)"
    using s(1) dk by simp
  show "c \<in> set s" using s by simp
qed

section \<open>One line of the batch file\<close>

text \<open>What \<open>scan_step\<close> does on a blank line, on a line with one colon, and on any other line.\<close>

lemma one_sep_mem: "count_list s c = 1 \<Longrightarrow> c \<in> set s"
  by (rule ccontr) (simp add: count_list_zero_iff [symmetric])

lemma scan_step_blank:
  assumes "TrimSpace txt = []"
  shows "scan_step root txt st =
     Inr (if Inputs (cur_is st) \<noteq> [] \<or> VirtualInputs (cur_is st) \<noteq> [] then
            st\<lparr>calls := calls st @ [Call_ComputeMerkleTree root (cur_is st)],
               totalRuns := totalRuns st + 1, cur_is := InputSpec_zero\<rparr>
          else st)"
  using assms by (simp add: scan_step_def)

lemma scan_step_key_value:
  assumes "Split txt (CHR '':'') = [k, v]"
  shows "scan_step root txt st =
     (if TrimSpace k = ''inputs'' then
        Inr (st\<lparr>cur_is := (cur_is st)\<lparr>Inputs := Inputs (cur_is st) @ [TrimSpace v]\<rparr>\<rparr>)
      else if TrimSpace k = ''path'' then
        Inr (st\<lparr>cur_is := (cur_is st)\<lparr>VirtualInputs := VirtualInputs (cur_is st) @
               [\<lparr>Path = TrimSpace v, Contents = None, IsExecutable = False\<rparr>]\<rparr>\<rparr>)
      else Inl (''broken line '' @ txt))"
proof -
  from Split_two_parts(3) [OF assms] have "TrimSpace txt \<noteq> []"
    using blank_no_colon by blast
  with assms show ?thesis by (simp add: scan_step_def Let_def)
qed

lemma scan_step_not_two:
  assumes "TrimSpace txt \<noteq> []" and "count_list txt (CHR '':'') \<noteq> 1"
  shows "scan_step root txt st = Inl (''broken line '' @ txt)"
proof -
  from assms(2) have "\<nexists>k v. Split txt (CHR '':'') = [k, v]"
    by (simp add: Split_two_count)
  with assms(1) show ?thesis
    by (auto simp: scan_step_def split: list.splits)
qed

lemma one_colon_Split:
  assumes "count_list txt (CHR '':'') = 1"
  shows "Split txt (CHR '':'') =
    [takeWhile (\<lambda>c. c \<noteq> CHR '':'') txt, tl (dropWhile (\<lambda>c. c \<noteq> CHR '':'') txt)]"
proof -
  from assms obtain k v where kv: "Split txt (CHR '':'') = [k, v]"
    using Split_two_count by blast
  from Split_two_parts(1,2) [OF kv] kv show ?thesis by simp
qed

lemma scan_step_reject:
  assumes "\<not> well_formed_line txt"
  shows "scan_step root txt st = Inl (''broken line '' @ txt)"
proof (cases "count_list txt (CHR '':'') = 1")
  case True
  from assms True show ?thesis
    by (simp add: scan_step_key_value [OF one_colon_Split [OF True]] well_formed_line_def)
next
  case False
  from assms have "TrimSpace txt \<noteq> []" by (simp add: well_formed_line_def)
  then show ?thesis using False by (rule scan_step_not_two)
qed

lemma scan_step_entry:
  assumes "well_formed_line txt" and "TrimSpace txt \<noteq> []"
  shows "scan_step root txt st = Inr (st\<lparr>cur_is := spec_add_line (cur_is st) txt\<rparr>)"
proof -
  from assms have one: "count_list txt (CHR '':'') = 1"
    and key: "TrimSpace (takeWhile (\<lambda>c. c \<noteq> CHR '':'') txt) = ''inputs'' \<or>
              TrimSpace (takeWhile (\<lambda>c. c \<noteq> CHR '':'') txt) = ''path''"
    by (auto simp: well_formed_line_def)
  from one have "CHR '':'' \<in> set txt"
    by (rule one_sep_mem)
  with key show ?thesis
    by (auto simp: scan_step_key_value [OF one_colon_Split [OF one]] spec_add_line_def
        spec_key_value_def)
qed

lemma scan_step_accepts:
  assumes "well_formed_line txt"
  shows "\<exists>st'. scan_step root txt st = Inr st'"
proof (cases "TrimSpace txt = []")
  case True
  then show ?thesis by (simp add: scan_step_blank)
next
  case False
  with assms show ?thesis by (simp add: scan_step_entry)
qed

lemma spec_add_line_size:
  assumes "well_formed_line txt" and "TrimSpace txt \<noteq> []"
  shows "length (Inputs (spec_add_line s txt)) + length (VirtualInputs (spec_add_line s txt))
       = Suc (length (Inputs s) + length (VirtualInputs s))"
proof -
  from assms have one: "count_list txt (CHR '':'') = 1"
    and key: "TrimSpace (takeWhile (\<lambda>c. c \<noteq> CHR '':'') txt) = ''inputs'' \<or>
              TrimSpace (takeWhile (\<lambda>c. c \<noteq> CHR '':'') txt) = ''path''"
    by (auto simp: well_formed_line_def)
  from one have "CHR '':'' \<in> set txt"
    by (rule one_sep_mem)
  with key show ?thesis
    by (auto simp: spec_add_line_def spec_key_value_def)
qed

section \<open>The loop\<close>

text \<open>
  The loop only ever appends calls of \<^verbatim>\<open>ComputeMerkleTree\<close>, each on a non-empty
  input spec whose virtual inputs carry a path only.
\<close>

lemma loop_append:
  "ComputeTree_loop root pre st = (st1, None) \<Longrightarrow>
   ComputeTree_loop root (pre @ rest) st = ComputeTree_loop root rest st1"
  by (induction pre arbitrary: st) (auto split: sum.splits)

lemma loop_well_formed:
  "\<forall>l\<in>set ls. well_formed_line l \<Longrightarrow> \<exists>st'. ComputeTree_loop root ls st = (st', None)"
proof (induction ls arbitrary: st)
  case Nil
  then show ?case by simp
next
  case (Cons l ls)
  then obtain st1 where "scan_step root l st = Inr st1"
    using scan_step_accepts [of l root st] by auto
  with Cons show ?case by simp
qed

lemma scan_step_calls:
  assumes "scan_step root txt st = Inr st'"
  shows "(calls st' = calls st \<and> (TrimSpace txt = [] \<longrightarrow> cur_is st' = cur_is st)
            \<and> (TrimSpace txt = [] \<longrightarrow> \<not> spec_nonempty (cur_is st))
          \<or> calls st' = calls st @ [Call_ComputeMerkleTree root (cur_is st)]
            \<and> spec_nonempty (cur_is st) \<and> cur_is st' = InputSpec_zero)"
proof (cases "TrimSpace txt = []")
  case True
  with assms show ?thesis
    by (auto simp: scan_step_blank spec_nonempty_def split: if_splits)
next
  case False
  with assms show ?thesis
    by (auto simp: scan_step_def Let_def split: list.splits if_splits)
qed

lemma scan_step_virtual:
  assumes "scan_step root txt st = Inr st'"
    and "\<forall>vi\<in>set (VirtualInputs (cur_is st)). path_only vi"
  shows "\<forall>vi\<in>set (VirtualInputs (cur_is st')). path_only vi"
proof (cases "TrimSpace txt = []")
  case True
  with assms show ?thesis
    by (auto simp: scan_step_blank InputSpec_zero_def split: if_splits)
next
  case False
  with assms show ?thesis
    by (auto simp: scan_step_def Let_def path_only_def split: list.splits if_splits)
qed

lemma loop_calls:
  assumes "ComputeTree_loop root ls st = (st', out)"
    and "\<forall>vi\<in>set (VirtualInputs (cur_is st)). path_only vi"
  shows "\<exists>specs. calls st' = calls st @ map (Call_ComputeMerkleTree root) specs
           \<and> (\<forall>s\<in>set specs. spec_nonempty s \<and> (\<forall>vi\<in>set (VirtualInputs s). path_only vi))"
  using assms
proof (induction ls arbitrary: st)
  case Nil
  then have "calls st' = calls st @ map (Call_ComputeMerkleTree root) []" by simp
  then show ?case by fastforce
next
  case (Cons l ls)
  show ?case
  proof (cases "scan_step root l st")
    case (Inl msg)
    with Cons.prems have "calls st' = calls st @ map (Call_ComputeMerkleTree root) []" by simp
    then show ?thesis by fastforce
  next
    case (Inr st1)
    with Cons.prems have run: "ComputeTree_loop root ls st1 = (st', out)" by simp
    have v1: "\<forall>vi\<in>set (VirtualInputs (cur_is st1)). path_only vi"
      by (rule scan_step_virtual [OF Inr Cons.prems(2)])
    from Cons.IH [OF run v1] obtain specs where
      specs: "calls st' = calls st1 @ map (Call_ComputeMerkleTree root) specs"
        "\<forall>s\<in>set specs. spec_nonempty s \<and> (\<forall>vi\<in>set (VirtualInputs s). path_only vi)"
      by blast
    from scan_step_calls [OF Inr] show ?thesis
    proof
      assume "calls st1 = calls st \<and> (TrimSpace l = [] \<longrightarrow> cur_is st1 = cur_is st)
            \<and> (TrimSpace l = [] \<longrightarrow> \<not> spec_nonempty (cur_is st))"
      with specs show ?thesis by auto
    next
      assume a: "calls st1 = calls st @ [Call_ComputeMerkleTree root (cur_is st)]
            \<and> spec_nonempty (cur_is st) \<and> cur_is st1 = InputSpec_zero"
      then have "calls st' = calls st @ map (Call_ComputeMerkleTree root) (cur_is st # specs)"
        using specs(1) by simp
      moreover have "\<forall>s\<in>set (cur_is st # specs).
          spec_nonempty s \<and> (\<forall>vi\<in>set (VirtualInputs s). path_only vi)"
        using a specs(2) Cons.prems(2) by simp
      ultimately show ?thesis by blast
    qed
  qed
qed

section \<open>The loop and the records of the specification\<close>

text \<open>
  On well-formed lines the loop builds the groups that blank lines end, and keeps the
  last group as the accumulated input spec.
\<close>

lemma spec_groups_not_Nil [simp]: "spec_groups g ls \<noteq> []"
  by (induction ls arbitrary: g) auto

lemma spec_record_snoc: "spec_record (g @ [l]) = spec_add_line (spec_record g) l"
  by (simp add: spec_record_def)

lemma spec_record_Nil [simp]: "spec_record [] = InputSpec_zero"
  by (simp add: spec_record_def)

lemma spec_record_size:
  "\<forall>l\<in>set g. well_formed_line l \<and> TrimSpace l \<noteq> [] \<Longrightarrow>
   length (Inputs (spec_record g)) + length (VirtualInputs (spec_record g)) = length g"
proof (induction g rule: rev_induct)
  case Nil
  then show ?case by (simp add: InputSpec_zero_def)
next
  case (snoc l g)
  then show ?case
    by (simp add: spec_record_snoc spec_add_line_size)
qed

lemma spec_record_nonempty:
  assumes "\<forall>l\<in>set g. well_formed_line l \<and> TrimSpace l \<noteq> []"
  shows "spec_nonempty (spec_record g) \<longleftrightarrow> g \<noteq> []"
  using spec_record_size [OF assms] by (cases g) (auto simp: spec_nonempty_def)

lemma loop_refines:
  assumes "\<forall>l\<in>set ls. well_formed_line l"
    and "\<forall>l\<in>set g. well_formed_line l \<and> TrimSpace l \<noteq> []"
  shows "ComputeTree_loop root ls \<lparr>cur_is = spec_record g, totalRuns = n, calls = tr\<rparr> =
     (\<lparr>cur_is = spec_record (last (spec_groups g ls)),
       totalRuns = n + int (length (filter (\<lambda>g. g \<noteq> []) (butlast (spec_groups g ls)))),
       calls = tr @ map (Call_ComputeMerkleTree root)
                 (map spec_record (filter (\<lambda>g. g \<noteq> []) (butlast (spec_groups g ls))))\<rparr>, None)"
  using assms
proof (induction ls arbitrary: g n tr)
  case Nil
  then show ?case by simp
next
  case (Cons l ls)
  from Cons.prems(1) have wl: "well_formed_line l" and wls: "\<forall>l\<in>set ls. well_formed_line l"
    by simp_all
  show ?case
  proof (cases "TrimSpace l = []")
    case True
    have g0: "\<forall>l\<in>set ([]::string list). well_formed_line l \<and> TrimSpace l \<noteq> []" by simp
    show ?thesis
    proof (cases "g = []")
      case True
      with \<open>TrimSpace l = []\<close> Cons.IH [OF wls g0, of n tr] show ?thesis
        by (simp add: scan_step_blank InputSpec_zero_def)
    next
      case False
      then have ne: "spec_nonempty (spec_record g)"
        using spec_record_nonempty [OF Cons.prems(2)] by simp
      from ne \<open>TrimSpace l = []\<close> False
        Cons.IH [OF wls g0, of "n + 1" "tr @ [Call_ComputeMerkleTree root (spec_record g)]"]
      show ?thesis
        by (simp add: scan_step_blank spec_nonempty_def)
    qed
  next
    case False
    have g1: "\<forall>x\<in>set (g @ [l]). well_formed_line x \<and> TrimSpace x \<noteq> []"
      using Cons.prems(2) wl False by simp
    from False Cons.IH [OF wls g1, of n tr] show ?thesis
      by (simp add: scan_step_entry [OF wl False] spec_record_snoc)
  qed
qed

lemma last_group_blank:
  "ls \<noteq> [] \<Longrightarrow> TrimSpace (last ls) = [] \<Longrightarrow> last (spec_groups g ls) = []"
proof (induction ls arbitrary: g)
  case Nil
  then show ?case by simp
next
  case (Cons l ls)
  then show ?case by (cases ls) auto
qed

lemma groups_closed:
  assumes "ls = [] \<or> TrimSpace (last ls) = []"
  shows "filter (\<lambda>g. g \<noteq> []) (butlast (spec_groups [] ls)) = filter (\<lambda>g. g \<noteq> []) (spec_groups [] ls)"
    and "last (spec_groups [] ls) = []"
proof -
  show l: "last (spec_groups [] ls) = []"
    using assms last_group_blank [of ls "[]"] by (cases "ls = []") auto
  have "spec_groups [] ls = butlast (spec_groups [] ls) @ [last (spec_groups [] ls)]"
    by simp
  then have "filter (\<lambda>g. g \<noteq> []) (spec_groups [] ls)
      = filter (\<lambda>g. g \<noteq> []) (butlast (spec_groups [] ls) @ [[]])"
    using l by simp
  then show "filter (\<lambda>g. g \<noteq> []) (butlast (spec_groups [] ls))
      = filter (\<lambda>g. g \<noteq> []) (spec_groups [] ls)"
    by simp
qed

lemma stdout_of_builds [simp]:
  "stdout_of (tr @ map (Call_ComputeMerkleTree root) specs @ rest) = stdout_of tr @ stdout_of rest"
proof (induction tr rule: stdout_of.induct)
  case 1
  show ?case by (induction specs) auto
qed auto

lemma builds_of_builds:
  "builds_of (map (Call_ComputeMerkleTree root) specs @ [Log_Ran n]) = specs"
  by (induction specs) auto

section \<open>The scanner and the lines of the file\<close>

text \<open>
  The scanner delivers all the lines of a file whose lines are shorter than its buffer.
  A run returns when every line delivered is well formed, and ends at the first other
  line.
\<close>

lemma raw_lines_bound:
  "data \<noteq> [] \<or> cur \<noteq> [] \<Longrightarrow> \<exists>l\<in>set (raw_lines_from cur data). length cur \<le> length l"
proof (induction data arbitrary: cur)
  case Nil
  then show ?case by simp
next
  case (Cons c cs)
  show ?case
  proof (cases "c = CHR 0x0A")
    case True
    then show ?thesis by simp
  next
    case False
    have "cs \<noteq> [] \<or> cur @ [c] \<noteq> []" by simp
    from Cons.IH [OF this] obtain l where
      "l \<in> set (raw_lines_from (cur @ [c]) cs)" "length (cur @ [c]) \<le> length l" by blast
    then have "l \<in> set (raw_lines_from cur (c # cs))" "length cur \<le> length l"
      using False by simp_all
    then show ?thesis by blast
  qed
qed

lemma scan_lines_raw:
  "\<forall>l\<in>set (raw_lines_from cur data). length l < MaxScanTokenSize \<Longrightarrow>
   scan_lines cur data = map dropCR (raw_lines_from cur data)"
proof (induction data arbitrary: cur)
  case Nil
  then show ?case by (cases "cur = []") auto
next
  case (Cons c cs)
  have "c # cs \<noteq> [] \<or> cur \<noteq> []" by simp
  from raw_lines_bound [OF this] Cons.prems have len: "length cur < MaxScanTokenSize"
    by fastforce
  show ?case
  proof (cases "c = CHR 0x0A")
    case True
    with Cons.prems have "\<forall>l\<in>set (raw_lines_from [] cs). length l < MaxScanTokenSize" by simp
    from Cons.IH [OF this] True len show ?thesis by simp
  next
    case False
    with Cons.prems have "\<forall>l\<in>set (raw_lines_from (cur @ [c]) cs). length l < MaxScanTokenSize"
      by simp
    from Cons.IH [OF this] False len show ?thesis by simp
  qed
qed

lemma ScanLines_file_lines:
  "\<forall>l\<in>set (raw_lines data). length l < MaxScanTokenSize \<Longrightarrow> ScanLines data = file_lines data"
  by (simp add: ScanLines_def file_lines_def raw_lines_def scan_lines_raw)

lemma loop_first_bad:
  "find (\<lambda>l. \<not> well_formed_line l) ls = Some bad \<Longrightarrow>
   \<exists>st'. ComputeTree_loop root ls st = (st', Some (''broken line '' @ bad))"
proof (induction ls arbitrary: st)
  case Nil
  then show ?case by simp
next
  case (Cons l ls)
  show ?case
  proof (cases "well_formed_line l")
    case True
    from scan_step_accepts [OF True, of root st] obtain st1 where
      "scan_step root l st = Inr st1" by blast
    moreover from True Cons.prems have "find (\<lambda>l. \<not> well_formed_line l) ls = Some bad" by simp
    ultimately show ?thesis using Cons.IH by simp
  next
    case False
    with Cons.prems have "bad = l" by simp
    with scan_step_reject [OF False, of root st] show ?thesis by simp
  qed
qed

lemma ComputeTree_outcome:
  assumes "pathPrefix fl \<noteq> []" and "os_Open ev (pathPrefix fl) = Some data"
  shows "snd (ComputeTree fl ev) =
     (case find (\<lambda>l. \<not> well_formed_line l) (ScanLines data) of
        None \<Rightarrow> Returned
      | Some bad \<Rightarrow> Exited (''broken line '' @ bad))"
proof (cases "find (\<lambda>l. \<not> well_formed_line l) (ScanLines data)")
  case None
  then have "\<forall>l\<in>set (ScanLines data). well_formed_line l"
    by (simp add: find_None_iff)
  from loop_well_formed [OF this, of "inputRoot fl" loop_init] obtain st' where
    "ComputeTree_loop (inputRoot fl) (ScanLines data) loop_init = (st', None)" by blast
  with assms None show ?thesis by (simp add: ComputeTree_def)
next
  case (Some bad)
  from loop_first_bad [OF Some, of "inputRoot fl" loop_init] obtain st' where
    "ComputeTree_loop (inputRoot fl) (ScanLines data) loop_init
       = (st', Some (''broken line '' @ bad))" by blast
  with assms Some show ?thesis by (simp add: ComputeTree_def)
qed

section \<open>Sample evaluations\<close>

text \<open>The sample files and lines of the witnesses, evaluated once.\<close>

lemmas op_defs = downloadActionResult_def showAction_def downloadBlob_def downloadDir_def
  reexecuteAction_def checkDeterminism_def uploadBlob_def computeTree_def

lemmas main_defs = main_def run_operation_def getDigestFlag_def getPathFlag_def
  profile_setup_def deferred_calls_def

lemmas sample_defs = flags_of_def ok_env_def one_file_def

lemma sample_lines:
  "ScanLines ''inputs: a.txt\<newline>path: b.txt\<newline>\<newline>inputs: c.txt\<newline>''
     = [''inputs: a.txt'', ''path: b.txt'', [], ''inputs: c.txt'']"
  by (simp add: ScanLines_def MaxScanTokenSize_def dropCR_def)

lemma sample_loop:
  "ComputeTree_loop [] [''inputs: a.txt'', ''path: b.txt'', [], ''inputs: c.txt''] loop_init
     = (\<lparr>cur_is = \<lparr>Inputs = [''c.txt''], VirtualInputs = []\<rparr>, totalRuns = 1,
         calls = [Call_ComputeMerkleTree []
            \<lparr>Inputs = [''a.txt''],
               VirtualInputs = [\<lparr>Path = ''b.txt'', Contents = None, IsExecutable = False\<rparr>]\<rparr>]\<rparr>,
        None)"
  by code_simp

lemma sample_records:
  "spec_records [''inputs: a.txt'', ''path: b.txt'', [], ''inputs: c.txt'']
     = [\<lparr>Inputs = [''a.txt''],
          VirtualInputs = [\<lparr>Path = ''b.txt'', Contents = None, IsExecutable = False\<rparr>]\<rparr>,
        \<lparr>Inputs = [''c.txt''], VirtualInputs = []\<rparr>]"
  by code_simp

lemma sample_fields:
  "operation (flags_of op d p) = op" "digest (flags_of op d p) = d"
  "pathPrefix (flags_of op d p) = p" "inputRoot (flags_of op d p) = []"
  "execAttempts (flags_of op d p) = 10" "cpuProfFile (flags_of op d p) = []"
  "os_Open (ok_env files) = files" "NewClientFromFlags (ok_env files) = None"
  "one_file name data name = Some data" "calls loop_init = []"
  by (simp_all add: flags_of_def ok_env_def one_file_def loop_init_def)

lemma trim_samples:
  "TrimSpace ''  '' = []" "TrimSpace [CHR 0x09] = []"
  "TrimSpace ''path'' = ''path''" "TrimSpace '' b.txt'' = ''b.txt''"
  by code_simp+

lemma well_formed_samples:
  "\<not> well_formed_line ''path: a:b''" "well_formed_line ''inputs: a.txt''"
  "well_formed_line []" "\<not> well_formed_line ''bogus''"
  by code_simp+

lemma closed_lines:
  "ScanLines ''inputs: a.txt\<newline>\<newline>'' = [''inputs: a.txt'', []]"
  by (simp add: ScanLines_def MaxScanTokenSize_def dropCR_def)

lemma closed_loop:
  "ComputeTree_loop [] [''inputs: a.txt'', []] loop_init
     = (\<lparr>cur_is = InputSpec_zero, totalRuns = 1,
         calls = [Call_ComputeMerkleTree [] \<lparr>Inputs = [''a.txt''], VirtualInputs = []\<rparr>]\<rparr>, None)"
  by code_simp

lemma closed_records:
  "spec_records [''inputs: a.txt'', []] = [\<lparr>Inputs = [''a.txt''], VirtualInputs = []\<rparr>]"
  by code_simp

lemma broken_lines:
  "ScanLines ''bogus\<newline>\<newline>inputs: c.txt\<newline>\<newline>'' = [''bogus'', [], ''inputs: c.txt'', []]"
  "ScanLines ''inputs: a.txt\<newline>\<newline>bogus\<newline>inputs: c.txt\<newline>\<newline>''
     = [''inputs: a.txt'', []] @ ''bogus'' # [''inputs: c.txt'', []]"
  by (simp_all add: ScanLines_def MaxScanTokenSize_def dropCR_def)

lemma broken_loop:
  "ComputeTree_loop [] [''bogus'', [], ''inputs: c.txt'', []] loop_init
     = (loop_init, Some ''broken line bogus'')"
  by code_simp

lemma two_records_lines:
  "raw_lines ''inputs: a.txt\<newline>path: b.txt\<newline>\<newline>inputs: c.txt\<newline>\<newline>''
     = [''inputs: a.txt'', ''path: b.txt'', [], ''inputs: c.txt'', []]"
  "file_lines ''inputs: a.txt\<newline>path: b.txt\<newline>\<newline>inputs: c.txt\<newline>\<newline>''
     = [''inputs: a.txt'', ''path: b.txt'', [], ''inputs: c.txt'', []]"
  by (simp_all add: file_lines_def raw_lines_def dropCR_def)

lemma two_records_well_formed:
  "well_formed_line ''path: b.txt''" "well_formed_line ''inputs: c.txt''"
  by code_simp+

lemma two_records:
  "spec_records [''inputs: a.txt'', ''path: b.txt'', [], ''inputs: c.txt'', []]
     = [\<lparr>Inputs = [''a.txt''],
          VirtualInputs = [\<lparr>Path = ''b.txt'', Contents = None, IsExecutable = False\<rparr>]\<rparr>,
        \<lparr>Inputs = [''c.txt''], VirtualInputs = []\<rparr>]"
  by code_simp

lemma colon_lines:
  "ScanLines ''inputs: a.txt\<newline>path: a:b\<newline>'' = [''inputs: a.txt'', ''path: a:b'']"
  by (simp add: ScanLines_def MaxScanTokenSize_def dropCR_def)

section \<open>The calls of \<^verbatim>\<open>ComputeTree\<close>\<close>

lemma ComputeTree_trace:
  "\<exists>specs rest. fst (ComputeTree fl ev) = map (Call_ComputeMerkleTree (inputRoot fl)) specs @ rest
      \<and> (rest = [] \<or> (\<exists>n. rest = [Log_Ran n]))
      \<and> (\<forall>s\<in>set specs. spec_nonempty s \<and> (\<forall>vi\<in>set (VirtualInputs s). path_only vi))"
proof (cases "pathPrefix fl \<noteq> [] \<and> os_Open ev (pathPrefix fl) \<noteq> None")
  case False
  then have "fst (ComputeTree fl ev) = map (Call_ComputeMerkleTree (inputRoot fl)) [] @ []"
    by (auto simp: ComputeTree_def)
  then show ?thesis by fastforce
next
  case True
  then obtain data where d: "pathPrefix fl \<noteq> []" "os_Open ev (pathPrefix fl) = Some data"
    by auto
  obtain st' out where run:
    "ComputeTree_loop (inputRoot fl) (ScanLines data) loop_init = (st', out)"
    by (cases "ComputeTree_loop (inputRoot fl) (ScanLines data) loop_init") auto
  have "\<forall>vi\<in>set (VirtualInputs (cur_is loop_init)). path_only vi"
    by (simp add: loop_init_def InputSpec_zero_def)
  from loop_calls [OF run this] obtain specs where
    specs: "calls st' = map (Call_ComputeMerkleTree (inputRoot fl)) specs"
      "\<forall>s\<in>set specs. spec_nonempty s \<and> (\<forall>vi\<in>set (VirtualInputs s). path_only vi)"
    by (auto simp: loop_init_def)
  have "fst (ComputeTree fl ev) = map (Call_ComputeMerkleTree (inputRoot fl)) specs
          @ (case out of None \<Rightarrow> [Log_Ran (totalRuns st')] | Some m \<Rightarrow> [])"
    using d run specs(1) by (simp add: ComputeTree_def split: option.splits)
  moreover have "(case out of None \<Rightarrow> [Log_Ran (totalRuns st')] | Some m \<Rightarrow> []) = []
      \<or> (\<exists>n. (case out of None \<Rightarrow> [Log_Ran (totalRuns st')] | Some m \<Rightarrow> []) = [Log_Ran n])"
    by (cases out) auto
  ultimately show ?thesis using specs(2) by blast
qed

lemma ComputeTree_calls:
  assumes "Call_ComputeMerkleTree r s \<in> set (fst (ComputeTree fl ev))"
  shows "spec_nonempty s \<and> (\<forall>vi\<in>set (VirtualInputs s). path_only vi)"
proof -
  from ComputeTree_trace [of fl ev] obtain specs rest where
    t: "fst (ComputeTree fl ev) = map (Call_ComputeMerkleTree (inputRoot fl)) specs @ rest"
      "rest = [] \<or> (\<exists>n. rest = [Log_Ran n])"
      "\<forall>s\<in>set specs. spec_nonempty s \<and> (\<forall>vi\<in>set (VirtualInputs s). path_only vi)"
    by blast
  from assms t(1,2) have "s \<in> set specs" by auto
  with t(3) show ?thesis by blast
qed

lemma ComputeTree_no_stdout: "stdout_of (fst (ComputeTree fl ev)) = []"
proof -
  from ComputeTree_trace [of fl ev] obtain specs rest where
    t: "fst (ComputeTree fl ev) = map (Call_ComputeMerkleTree (inputRoot fl)) specs @ rest"
      "rest = [] \<or> (\<exists>n. rest = [Log_Ran n])"
    by blast
  have "stdout_of ([] @ map (Call_ComputeMerkleTree (inputRoot fl)) specs @ rest)
      = stdout_of [] @ stdout_of rest"
    by (rule stdout_of_builds)
  with t show ?thesis by auto
qed

section \<open>The claims on \<^verbatim>\<open>ComputeTree\<close>\<close>

text \<open>
  Claim C4. On a blank line the loop calls \<^verbatim>\<open>ComputeMerkleTree\<close> exactly when the
  accumulated input spec has an input or a virtual input, and then starts a fresh one;
  on an empty input spec the line changes nothing. A second blank line after a blank
  line changes nothing, and no call of a whole run gets an empty input spec.
\<close>

theorem blank_line_builds_iff_nonempty:
  assumes "TrimSpace txt = []" and "TrimSpace txt' = []"
  shows "scan_step root txt st =
           Inr (if spec_nonempty (cur_is st) then
                  st\<lparr>calls := calls st @ [Call_ComputeMerkleTree root (cur_is st)],
                     totalRuns := totalRuns st + 1, cur_is := InputSpec_zero\<rparr>
                else st)
     \<and> (\<forall>st1. scan_step root txt st = Inr st1 \<longrightarrow> scan_step root txt' st1 = Inr st1)
     \<and> (\<forall>r s. Call_ComputeMerkleTree r s \<in> set (fst (ComputeTree fl ev)) \<longrightarrow> spec_nonempty s)"
proof (intro conjI allI impI)
  show "scan_step root txt st =
           Inr (if spec_nonempty (cur_is st) then
                  st\<lparr>calls := calls st @ [Call_ComputeMerkleTree root (cur_is st)],
                     totalRuns := totalRuns st + 1, cur_is := InputSpec_zero\<rparr>
                else st)"
    by (simp add: scan_step_blank [OF assms(1)] spec_nonempty_def)
next
  fix st1 assume "scan_step root txt st = Inr st1"
  then have "\<not> spec_nonempty (cur_is st1)"
    by (auto simp: scan_step_blank [OF assms(1)] spec_nonempty_def InputSpec_zero_def
        split: if_splits)
  then show "scan_step root txt' st1 = Inr st1"
    by (simp add: scan_step_blank [OF assms(2)] spec_nonempty_def)
next
  fix r s assume "Call_ComputeMerkleTree r s \<in> set (fst (ComputeTree fl ev))"
  then show "spec_nonempty s" using ComputeTree_calls by blast
qed

theorem blank_line_builds_iff_nonempty_witness:
  "scan_step [] ''  '' (loop_init\<lparr>cur_is := \<lparr>Inputs = [''a.txt''], VirtualInputs = []\<rparr>\<rparr>)
     = Inr \<lparr>cur_is = InputSpec_zero, totalRuns = 1,
            calls = [Call_ComputeMerkleTree [] \<lparr>Inputs = [''a.txt''], VirtualInputs = []\<rparr>]\<rparr>
   \<and> scan_step [] ''  '' loop_init = Inr loop_init"
  using blank_line_builds_iff_nonempty [OF trim_samples(1) trim_samples(2), of "[]"
        "loop_init\<lparr>cur_is := \<lparr>Inputs = [''a.txt''], VirtualInputs = []\<rparr>\<rparr>"]
    blank_line_builds_iff_nonempty [OF trim_samples(1) trim_samples(2), of "[]" loop_init]
  by (simp add: spec_nonempty_def loop_init_def InputSpec_zero_def)



text \<open>
  Claim C5, as stated: every line of the form \<^verbatim>\<open>key: value\<close> with a known key is
  parsed, also when the value contains a colon. It fails on the code: the line
  \<^verbatim>\<open>path: a:b\<close> has that form and ends the process.
\<close>

theorem colon_in_value_counterexample:
  "spec_accepts ''path: a:b'' \<and> scan_step [] ''path: a:b'' loop_init = Inl ''broken line path: a:b''"
  by code_simp

text \<open>
  Claim C5, amended. A line that the scanner delivers to the loop is taken exactly when
  it is blank after trimming, or has exactly one colon and the text before the colon,
  trimmed, is \<^verbatim>\<open>inputs\<close> or \<^verbatim>\<open>path\<close>. Every other line that is delivered, also
  one whose value contains a colon, ends the process with the message
  \<^verbatim>\<open>broken line\<close> followed by the line: a run returns when all the lines delivered
  are of the first kind, and ends at the first line that is not.
\<close>

theorem line_accepted_iff:
  "((\<exists>st'. scan_step root txt st = Inr st') \<longleftrightarrow> well_formed_line txt)
   \<and> (\<not> well_formed_line txt \<longrightarrow> scan_step root txt st = Inl (''broken line '' @ txt))
   \<and> (pathPrefix fl \<noteq> [] \<and> os_Open ev (pathPrefix fl) = Some data \<longrightarrow>
        snd (ComputeTree fl ev) =
          (case find (\<lambda>l. \<not> well_formed_line l) (ScanLines data) of
             None \<Rightarrow> Returned
           | Some bad \<Rightarrow> Exited (''broken line '' @ bad)))"
proof (intro conjI impI)
  show "(\<exists>st'. scan_step root txt st = Inr st') \<longleftrightarrow> well_formed_line txt"
  proof (cases "well_formed_line txt")
    case True
    with scan_step_accepts [OF True, of root st] show ?thesis by simp
  next
    case False
    from scan_step_reject [OF False, of root st] False show ?thesis by simp
  qed
next
  assume "\<not> well_formed_line txt"
  then show "scan_step root txt st = Inl (''broken line '' @ txt)"
    by (rule scan_step_reject)
next
  assume "pathPrefix fl \<noteq> [] \<and> os_Open ev (pathPrefix fl) = Some data"
  then show "snd (ComputeTree fl ev) =
          (case find (\<lambda>l. \<not> well_formed_line l) (ScanLines data) of
             None \<Rightarrow> Returned
           | Some bad \<Rightarrow> Exited (''broken line '' @ bad))"
    using ComputeTree_outcome by blast
qed

theorem line_accepted_iff_witness:
  "scan_step [] ''path: a:b'' loop_init = Inl ''broken line path: a:b''
   \<and> (\<exists>st'. scan_step [] ''inputs: a.txt'' loop_init = Inr st')
   \<and> snd (ComputeTree (flags_of computeTree [] ''batch'')
        (ok_env (one_file ''batch'' ''inputs: a.txt\<newline>path: a:b\<newline>'')))
       = Exited ''broken line path: a:b''
   \<and> snd (ComputeTree (flags_of computeTree [] ''batch'')
        (ok_env (one_file ''batch'' ''inputs: a.txt\<newline>\<newline>''))) = Returned"
  using line_accepted_iff [of "[]" "''path: a:b''" loop_init "flags_of computeTree [] ''batch''"
      "ok_env (one_file ''batch'' ''inputs: a.txt\<newline>path: a:b\<newline>'')"
      "''inputs: a.txt\<newline>path: a:b\<newline>''"]
    line_accepted_iff [of "[]" "''inputs: a.txt''" loop_init "flags_of computeTree [] ''batch''"
      "ok_env (one_file ''batch'' ''inputs: a.txt\<newline>\<newline>'')" "''inputs: a.txt\<newline>\<newline>''"]
  by (simp add: well_formed_samples sample_fields colon_lines closed_lines)

text \<open>
  Claim C3, as stated: a malformed line aborts its record only, and the records after
  it are still processed. It fails on the code: a malformed first line ends the process,
  and the record that follows it is never built.
\<close>

theorem malformed_line_counterexample:
  "ComputeTree (flags_of computeTree [] ''batch'')
     (ok_env (one_file ''batch'' ''bogus\<newline>\<newline>inputs: c.txt\<newline>\<newline>''))
   = ([], Exited ''broken line bogus'')"
  by (simp add: ComputeTree_def sample_fields broken_lines broken_loop
      del: ComputeTree_loop.simps)

text \<open>
  Claim C3, amended. At the first malformed line the process ends with the message
  \<^verbatim>\<open>broken line\<close> followed by the line as it was read, with no number of a record or
  of a line; the calls made for the lines before it stay, and no line after it is read.
\<close>

theorem malformed_line_exits:
  assumes "pathPrefix fl \<noteq> []" and "os_Open ev (pathPrefix fl) = Some data"
    and "ScanLines data = pre @ bad # post"
    and "\<forall>l\<in>set pre. well_formed_line l" and "\<not> well_formed_line bad"
  shows "ComputeTree fl ev =
     (calls (fst (ComputeTree_loop (inputRoot fl) pre loop_init)), Exited (''broken line '' @ bad))"
proof -
  from loop_well_formed [OF assms(4)] obtain st1 where
    pre: "ComputeTree_loop (inputRoot fl) pre loop_init = (st1, None)" by blast
  have "ComputeTree_loop (inputRoot fl) (pre @ bad # post) loop_init
      = ComputeTree_loop (inputRoot fl) (bad # post) st1"
    by (rule loop_append [OF pre])
  also have "\<dots> = (st1, Some (''broken line '' @ bad))"
    by (simp add: scan_step_reject [OF assms(5)])
  finally show ?thesis
    using assms(1-3) pre by (simp add: ComputeTree_def)
qed

theorem malformed_line_exits_witness:
  "ComputeTree (flags_of computeTree [] ''batch'')
     (ok_env (one_file ''batch'' ''inputs: a.txt\<newline>\<newline>bogus\<newline>inputs: c.txt\<newline>\<newline>''))
   = ([Call_ComputeMerkleTree [] \<lparr>Inputs = [''a.txt''], VirtualInputs = []\<rparr>],
      Exited ''broken line bogus'')"
  using malformed_line_exits [of "flags_of computeTree [] ''batch''"
      "ok_env (one_file ''batch'' ''inputs: a.txt\<newline>\<newline>bogus\<newline>inputs: c.txt\<newline>\<newline>'')"
      "''inputs: a.txt\<newline>\<newline>bogus\<newline>inputs: c.txt\<newline>\<newline>''"
      "[''inputs: a.txt'', []]" "''bogus''" "[''inputs: c.txt'', []]"]
  by (simp add: sample_fields broken_lines well_formed_samples closed_loop
      del: ComputeTree_loop.simps)

text \<open>
  Claim C2. The specification's example file has two records. The code builds the
  first one only: the second is accumulated, and the loop ends at the end of the file
  with no blank line after it, so it is never handed to \<^verbatim>\<open>ComputeMerkleTree\<close>.
\<close>

theorem final_record_not_built:
  "ComputeTree (flags_of computeTree [] ''batch'')
     (ok_env (one_file ''batch'' ''inputs: a.txt\<newline>path: b.txt\<newline>\<newline>inputs: c.txt\<newline>''))
   = ([Call_ComputeMerkleTree []
         \<lparr>Inputs = [''a.txt''],
            VirtualInputs = [\<lparr>Path = ''b.txt'', Contents = None, IsExecutable = False\<rparr>]\<rparr>,
       Log_Ran 1], Returned)
   \<and> spec_records (ScanLines ''inputs: a.txt\<newline>path: b.txt\<newline>\<newline>inputs: c.txt\<newline>'')
     = [\<lparr>Inputs = [''a.txt''],
          VirtualInputs = [\<lparr>Path = ''b.txt'', Contents = None, IsExecutable = False\<rparr>]\<rparr>,
        \<lparr>Inputs = [''c.txt''], VirtualInputs = []\<rparr>]"
  by (simp add: ComputeTree_def sample_fields sample_lines sample_loop sample_records
      del: ComputeTree_loop.simps)

text \<open>
  Claim C1, as stated: one root digest is printed per non-empty record. It fails on the
  code: for a file with one record, ended by a blank line, the tree is built and
  nothing is written to the standard output.
\<close>

theorem no_digest_printed_counterexample:
  "spec_records (ScanLines ''inputs: a.txt\<newline>\<newline>'')
     = [\<lparr>Inputs = [''a.txt''], VirtualInputs = []\<rparr>]
   \<and> main (flags_of computeTree [] ''batch'') (ok_env (one_file ''batch'' ''inputs: a.txt\<newline>\<newline>''))
     = ([Call_ComputeMerkleTree [] \<lparr>Inputs = [''a.txt''], VirtualInputs = []\<rparr>, Log_Ran 1,
         Client_Close], Returned)
   \<and> stdout_of (fst (main (flags_of computeTree [] ''batch'')
        (ok_env (one_file ''batch'' ''inputs: a.txt\<newline>\<newline>'')))) = []"
proof -
  have ct: "ComputeTree (flags_of computeTree [] ''batch'')
        (ok_env (one_file ''batch'' ''inputs: a.txt\<newline>\<newline>''))
      = ([Call_ComputeMerkleTree [] \<lparr>Inputs = [''a.txt''], VirtualInputs = []\<rparr>, Log_Ran 1],
         Returned)"
    by (simp add: ComputeTree_def sample_fields closed_lines closed_loop
        del: ComputeTree_loop.simps)
  have m: "main (flags_of computeTree [] ''batch'')
        (ok_env (one_file ''batch'' ''inputs: a.txt\<newline>\<newline>''))
     = ([Call_ComputeMerkleTree [] \<lparr>Inputs = [''a.txt''], VirtualInputs = []\<rparr>, Log_Ran 1,
         Client_Close], Returned)"
    by (simp add: main_def run_operation_def profile_setup_def deferred_calls_def
        sample_fields ct [unfolded computeTree_def] op_defs)
  show ?thesis by (simp add: m closed_lines closed_records)
qed

lemma builds_follow_scanned:
  assumes "pathPrefix fl \<noteq> []" and "os_Open ev (pathPrefix fl) = Some data"
    and "\<forall>l\<in>set (ScanLines data). well_formed_line l"
    and "ScanLines data = [] \<or> TrimSpace (last (ScanLines data)) = []"
  shows "ComputeTree fl ev =
           (map (Call_ComputeMerkleTree (inputRoot fl)) (spec_records (ScanLines data))
              @ [Log_Ran (int (length (spec_records (ScanLines data))))], Returned)
     \<and> builds_of (fst (ComputeTree fl ev)) = spec_records (ScanLines data)
     \<and> stdout_of (fst (ComputeTree fl ev)) = []"
proof -
  have g0: "\<forall>l\<in>set ([]::string list). well_formed_line l \<and> TrimSpace l \<noteq> []" by simp
  have "ComputeTree_loop (inputRoot fl) (ScanLines data) loop_init =
     (\<lparr>cur_is = InputSpec_zero,
       totalRuns = int (length (spec_records (ScanLines data))),
       calls = map (Call_ComputeMerkleTree (inputRoot fl)) (spec_records (ScanLines data))\<rparr>, None)"
    using loop_refines [OF assms(3) g0, of "inputRoot fl" 0 "[]"]
    by (simp add: loop_init_def groups_closed [OF assms(4)] spec_records_def)
  then have ct: "ComputeTree fl ev =
           (map (Call_ComputeMerkleTree (inputRoot fl)) (spec_records (ScanLines data))
              @ [Log_Ran (int (length (spec_records (ScanLines data))))], Returned)"
    using assms(1,2) by (simp add: ComputeTree_def)
  moreover have "builds_of (fst (ComputeTree fl ev)) = spec_records (ScanLines data)"
    by (simp add: ct builds_of_builds)
  moreover have "stdout_of (fst (ComputeTree fl ev)) = []"
    by (rule ComputeTree_no_stdout)
  ultimately show ?thesis by simp
qed

text \<open>
  Claim C1, amended. For a batch file that the path flag names and that can be opened,
  whose lines are all shorter than the scanner's buffer of 65536 bytes and well formed,
  and whose last line is blank,
  \<^verbatim>\<open>ComputeTree\<close> calls \<^verbatim>\<open>ComputeMerkleTree\<close> once per non-empty record of the file,
  in the order of the file, logs their number and returns; the root digests are dropped
  and nothing is written to the standard output.
\<close>

theorem builds_follow_records:
  assumes "pathPrefix fl \<noteq> []" and "os_Open ev (pathPrefix fl) = Some data"
    and "\<forall>l\<in>set (raw_lines data). length l < MaxScanTokenSize"
    and "\<forall>l\<in>set (file_lines data). well_formed_line l"
    and "file_lines data = [] \<or> TrimSpace (last (file_lines data)) = []"
  shows "ComputeTree fl ev =
           (map (Call_ComputeMerkleTree (inputRoot fl)) (spec_records (file_lines data))
              @ [Log_Ran (int (length (spec_records (file_lines data))))], Returned)
     \<and> builds_of (fst (ComputeTree fl ev)) = spec_records (file_lines data)
     \<and> stdout_of (fst (ComputeTree fl ev)) = []"
proof -
  have sl: "ScanLines data = file_lines data"
    by (rule ScanLines_file_lines [OF assms(3)])
  from assms(4,5) have wf: "\<forall>l\<in>set (ScanLines data). well_formed_line l"
    and closed: "ScanLines data = [] \<or> TrimSpace (last (ScanLines data)) = []"
    by (simp_all add: sl)
  show ?thesis
    by (rule builds_follow_scanned [OF assms(1,2) wf closed, unfolded sl])
qed

theorem builds_follow_records_witness:
  "ComputeTree (flags_of computeTree [] ''batch'')
     (ok_env (one_file ''batch'' ''inputs: a.txt\<newline>path: b.txt\<newline>\<newline>inputs: c.txt\<newline>\<newline>''))
   = ([Call_ComputeMerkleTree []
         \<lparr>Inputs = [''a.txt''],
            VirtualInputs = [\<lparr>Path = ''b.txt'', Contents = None, IsExecutable = False\<rparr>]\<rparr>,
       Call_ComputeMerkleTree [] \<lparr>Inputs = [''c.txt''], VirtualInputs = []\<rparr>,
       Log_Ran 2], Returned)"
  using builds_follow_records [of "flags_of computeTree [] ''batch''"
      "ok_env (one_file ''batch'' ''inputs: a.txt\<newline>path: b.txt\<newline>\<newline>inputs: c.txt\<newline>\<newline>'')"
      "''inputs: a.txt\<newline>path: b.txt\<newline>\<newline>inputs: c.txt\<newline>\<newline>''"]
  by (simp add: sample_fields two_records_lines two_records well_formed_samples
      two_records_well_formed MaxScanTokenSize_def)







section \<open>The dispatch of \<^verbatim>\<open>main\<close>\<close>

text \<open>
  Claim C6. With the operation \<^verbatim>\<open>check_determinism\<close>, a count of attempts that is
  zero or negative ends the process with an error before any call is made; a count of
  at least one reaches \<^verbatim>\<open>CheckDeterminism\<close> unchanged (once the profile and the client
  are set up and the digest is given), and no other count ever reaches it.
\<close>

theorem check_determinism_attempts:
  assumes "operation fl = checkDeterminism"
  shows "(execAttempts fl \<le> 0 \<longrightarrow> main fl ev = ([], Exited ''--exec_attempts must be >= 1.''))
     \<and> (1 \<le> execAttempts fl \<and> snd (profile_setup fl ev) = None \<and> NewClientFromFlags ev = None
          \<and> digest fl \<noteq> [] \<longrightarrow>
        fst (main fl ev) = fst (profile_setup fl ev)
           @ [Call_CheckDeterminism (digest fl) (inputRoot fl) (execAttempts fl)]
           @ (if CheckDeterminism ev (digest fl) (inputRoot fl) (execAttempts fl) = None
              then deferred_calls fl else []))
     \<and> (\<forall>d r n. Call_CheckDeterminism d r n \<in> set (fst (main fl ev)) \<longrightarrow>
           n = execAttempts fl \<and> 1 \<le> n)"
  using assms
  by (auto simp: main_defs op_defs
      split: option.splits prod.splits outcome.splits sum.splits if_splits)

theorem check_determinism_attempts_witness:
  "main ((flags_of checkDeterminism ''abc/3'' [])\<lparr>execAttempts := 0\<rparr>) (ok_env Map.empty)
     = ([], Exited ''--exec_attempts must be >= 1.'')
   \<and> fst (main ((flags_of checkDeterminism ''abc/3'' [])\<lparr>execAttempts := 3\<rparr>) (ok_env Map.empty))
     = [Call_CheckDeterminism ''abc/3'' [] 3, Client_Close]"
  using check_determinism_attempts
      [of "(flags_of checkDeterminism ''abc/3'' [])\<lparr>execAttempts := 0\<rparr>" "ok_env Map.empty"]
    check_determinism_attempts
      [of "(flags_of checkDeterminism ''abc/3'' [])\<lparr>execAttempts := 3\<rparr>" "ok_env Map.empty"]
  by (simp add: sample_defs profile_setup_def deferred_calls_def)

text \<open>
  Claim C7, as stated: \<^verbatim>\<open>download_blob\<close> needs a digest only. It fails on the code:
  with a digest, no path, and a blob that the client would deliver, the process ends
  with the message of \<^verbatim>\<open>getPathFlag\<close> and writes nothing.
\<close>

theorem download_blob_path_counterexample:
  "main (flags_of downloadBlob ''abc/3'' []) (ok_env Map.empty)
     = ([], Exited ''--path must be specified.'')"
  by (simp add: main_defs op_defs sample_defs)

text \<open>
  Claim C7, amended. \<^verbatim>\<open>download_blob\<close> needs both the digest and the path flag: it
  ends with an error when the digest is missing, and when the digest is given and the
  path is missing. With both, it calls \<^verbatim>\<open>DownloadBlob\<close> on them, and writes the bytes
  that the call returns to the standard output, or ends with the error of the call.
\<close>

theorem download_blob_needs_digest_and_path:
  assumes "operation fl = downloadBlob" and "0 < execAttempts fl"
    and "profile_setup fl ev = (pre, None)" and "NewClientFromFlags ev = None"
  shows "(digest fl = [] \<longrightarrow> main fl ev = (pre, Exited ''--digest must be specified.''))
     \<and> (digest fl \<noteq> [] \<and> pathPrefix fl = [] \<longrightarrow>
          main fl ev = (pre, Exited ''--path must be specified.''))
     \<and> (digest fl \<noteq> [] \<and> pathPrefix fl \<noteq> [] \<longrightarrow>
          main fl ev =
            (case DownloadBlob ev (digest fl) (pathPrefix fl) of
               Inl err \<Rightarrow> (pre @ [Call_DownloadBlob (digest fl) (pathPrefix fl)],
                  Exited (''error downloading blob for digest '' @ digest fl @ '': '' @ err))
             | Inr res \<Rightarrow> (pre @ [Call_DownloadBlob (digest fl) (pathPrefix fl), Stdout_Write res]
                             @ deferred_calls fl, Returned)))"
  using assms
  by (auto simp: main_def run_operation_def getDigestFlag_def getPathFlag_def op_defs
      split: option.splits prod.splits outcome.splits sum.splits)

theorem download_blob_needs_digest_and_path_witness:
  "main (flags_of downloadBlob [] ''out'') (ok_env Map.empty)
     = ([], Exited ''--digest must be specified.'')
   \<and> main (flags_of downloadBlob ''abc/3'' ''out'') (ok_env Map.empty)
       = ([Call_DownloadBlob ''abc/3'' ''out'', Stdout_Write ''blob'', Client_Close], Returned)"
  using download_blob_needs_digest_and_path
      [of "flags_of downloadBlob [] ''out''" "ok_env Map.empty" "[]"]
    download_blob_needs_digest_and_path
      [of "flags_of downloadBlob ''abc/3'' ''out''" "ok_env Map.empty" "[]"]
  by (simp add: sample_defs profile_setup_def deferred_calls_def)

text \<open>
  Claim C8. \<^verbatim>\<open>compute_tree\<close> is not among the seven advertised operations, so the
  help text of \<^verbatim>\<open>--operation\<close> and the message for an unsupported operation list the
  other seven only; yet the dispatch runs \<^verbatim>\<open>ComputeTree\<close> for it.
\<close>

theorem compute_tree_not_advertised:
  "computeTree \<notin> set supportedOps \<and> length supportedOps = 7
   \<and> operation_usage = ''Specifies the operation to perform. Supported values: [download_action_result show_action download_blob download_dir reexecute_action check_determinism upload_blob]''
   \<and> (operation fl = computeTree \<and> 0 < execAttempts fl \<and> profile_setup fl ev = (pre, None)
        \<and> NewClientFromFlags ev = None \<longrightarrow>
      main fl ev = (case ComputeTree fl ev of
                      (tr, Returned) \<Rightarrow> (pre @ tr @ deferred_calls fl, Returned)
                    | (tr, out) \<Rightarrow> (pre @ tr, out)))
   \<and> (operation fl \<noteq> [] \<and> operation fl \<notin> set supportedOps \<and> operation fl \<noteq> computeTree
        \<and> 0 < execAttempts fl \<and> profile_setup fl ev = (pre, None)
        \<and> NewClientFromFlags ev = None \<longrightarrow>
      main fl ev = (pre, Exited (''unsupported operation '' @ operation fl @
          ''. Supported operations:'' @ [CHR 0x0A] @ ''[download_action_result show_action download_blob download_dir reexecute_action check_determinism upload_blob]'')))"
  by (simp add: main_def run_operation_def op_defs supportedOps_def operation_usage_def
      fmt_ops_def)

theorem compute_tree_not_advertised_witness:
  "main (flags_of computeTree [] ''batch'')
      (ok_env (one_file ''batch'' ''inputs: a.txt\<newline>path: b.txt\<newline>\<newline>inputs: c.txt\<newline>''))
     = ([Call_ComputeMerkleTree []
           \<lparr>Inputs = [''a.txt''],
              VirtualInputs = [\<lparr>Path = ''b.txt'', Contents = None, IsExecutable = False\<rparr>]\<rparr>,
         Log_Ran 1, Client_Close], Returned)
   \<and> main (flags_of ''print_tree'' [] ''batch'') (ok_env Map.empty)
     = ([], Exited (''unsupported operation print_tree. Supported operations:'' @ [CHR 0x0A] @
          ''[download_action_result show_action download_blob download_dir reexecute_action check_determinism upload_blob]''))"
proof -
  have ct: "ComputeTree (flags_of computeTree [] ''batch'')
      (ok_env (one_file ''batch'' ''inputs: a.txt\<newline>path: b.txt\<newline>\<newline>inputs: c.txt\<newline>''))
     = ([Call_ComputeMerkleTree []
           \<lparr>Inputs = [''a.txt''],
              VirtualInputs = [\<lparr>Path = ''b.txt'', Contents = None, IsExecutable = False\<rparr>]\<rparr>,
         Log_Ran 1], Returned)"
    by (simp add: ComputeTree_def sample_fields sample_lines sample_loop
        del: ComputeTree_loop.simps)
  have ps: "profile_setup (flags_of op d p) (ok_env files) = ([], None)" for op d p files
    by (simp add: profile_setup_def sample_fields)
  from compute_tree_not_advertised [of "flags_of computeTree [] ''batch''"
      "ok_env (one_file ''batch'' ''inputs: a.txt\<newline>path: b.txt\<newline>\<newline>inputs: c.txt\<newline>'')" "[]"]
    compute_tree_not_advertised [of "flags_of ''print_tree'' [] ''batch''" "ok_env Map.empty" "[]"]
  show ?thesis
    by (simp add: sample_fields ps ct deferred_calls_def supportedOps_def op_defs
        ct [unfolded computeTree_def])
qed

end
